theory Spec2Isabelle
  imports Main
begin

section \<open>Data model of \<open>src/App.js\<close>\<close>

text \<open>
  \<open>ctx.currentPlayer\<close> is one of the two player ids of the host runtime; a cell and a
  board's \<open>winner\<close> hold either \<open>null\<close> or a player id. Reading a JavaScript array
  outside its length gives \<open>undefined\<close>, so the values a cell slot can read as are
  \<open>undefined\<close>, \<open>null\<close> and a player id.
\<close>

datatype player = PLAYER_0 | PLAYER_1

datatype mark = Undefined | Null | Mark player

record board =
  cells :: "mark list"
  complete :: bool
  winner :: mark

text \<open>The game state \<open>G\<close> built by \<open>setup\<close>; \<open>nextBoardId = null\<close> is \<open>None\<close>.\<close>

record G =
  boards :: "board list"
  nextBoardId :: "nat option"

text \<open>
  The part of the host runtime's \<open>ctx\<close> that the source reads: \<open>ctx.currentPlayer\<close> and
  \<open>ctx.gameover\<close> (\<open>undefined\<close> is \<open>None\<close>; otherwise the object returned by
  \<open>endGameIf\<close>, \<open>{winner: p}\<close> or \<open>{draw: true}\<close>).
\<close>

datatype gameover = Winner player | Draw

record ctx =
  currentPlayer :: player
  gameover :: "gameover option"

type_synonym state = "G \<times> ctx"

datatype error = INVALID_MOVE | TypeError

section \<open>JavaScript array access\<close>

text \<open>\<open>xs[i]\<close>: \<open>undefined\<close> outside the array.\<close>

definition js_nth :: "mark list \<Rightarrow> nat \<Rightarrow> mark" where
  "js_nth xs i = (if i < length xs then xs ! i else Undefined)"

text \<open>\<open>xs[i] = v\<close>: an assignment past the end extends the array, the skipped slots
  reading as \<open>undefined\<close>.\<close>

definition js_set :: "mark list \<Rightarrow> nat \<Rightarrow> mark \<Rightarrow> mark list" where
  "js_set xs i v =
     (if i < length xs then xs[i := v]
      else xs @ replicate (i - length xs) Undefined @ [v])"

text \<open>\<open>x == null\<close> (loose equality): true of \<open>null\<close> and of \<open>undefined\<close>.\<close>

definition loose_null :: "mark \<Rightarrow> bool" where
  "loose_null x \<longleftrightarrow> x = Null \<or> x = Undefined"

section \<open>The rule functions (lines 10 to 34)\<close>

definition isVictory :: "mark list \<Rightarrow> bool" where
  "isVictory cs \<longleftrightarrow>
     (js_nth cs 0 \<noteq> Null \<and> (js_nth cs 0 = js_nth cs 1 \<and> js_nth cs 0 = js_nth cs 2)) \<or>
     (js_nth cs 3 \<noteq> Null \<and> (js_nth cs 3 = js_nth cs 4 \<and> js_nth cs 3 = js_nth cs 5)) \<or>
     (js_nth cs 6 \<noteq> Null \<and> (js_nth cs 6 = js_nth cs 7 \<and> js_nth cs 6 = js_nth cs 8)) \<or>
     (js_nth cs 0 \<noteq> Null \<and> (js_nth cs 0 = js_nth cs 3 \<and> js_nth cs 0 = js_nth cs 6)) \<or>
     (js_nth cs 1 \<noteq> Null \<and> (js_nth cs 1 = js_nth cs 4 \<and> js_nth cs 1 = js_nth cs 7)) \<or>
     (js_nth cs 2 \<noteq> Null \<and> (js_nth cs 2 = js_nth cs 5 \<and> js_nth cs 2 = js_nth cs 8)) \<or>
     (js_nth cs 0 \<noteq> Null \<and> (js_nth cs 0 = js_nth cs 4 \<and> js_nth cs 0 = js_nth cs 8)) \<or>
     (js_nth cs 2 \<noteq> Null \<and> (js_nth cs 2 = js_nth cs 4 \<and> js_nth cs 2 = js_nth cs 6))"

definition isComplete :: "mark list \<Rightarrow> bool" where
  "isComplete cs \<longleftrightarrow> length (filter (\<lambda>c. c = Null) cs) = 0"

definition allBoardsComplete :: "board list \<Rightarrow> bool" where
  "allBoardsComplete bs \<longleftrightarrow> length (filter (\<lambda>b. \<not> complete b) bs) = 0"

definition boardsToCells :: "board list \<Rightarrow> mark list" where
  "boardsToCells bs = map winner bs"

text \<open>
  \<open>isValidMove\<close> evaluates its conjuncts left to right: when the routing test fails the
  result is \<open>false\<close> without touching \<open>G.boards\<close>; otherwise \<open>G.boards[boardId]\<close> is read,
  and reading \<open>.complete\<close> of \<open>undefined\<close> throws a TypeError. The cell test is the loose
  \<open>== null\<close>.
\<close>

definition isValidMove :: "G \<Rightarrow> nat \<Rightarrow> nat \<Rightarrow> error + bool" where
  "isValidMove g boardId cellId =
     (if Some boardId = nextBoardId g \<or> nextBoardId g = None then
        (if boardId < length (boards g) then
           Inr (\<not> complete (boards g ! boardId) \<and>
                loose_null (js_nth (cells (boards g ! boardId)) cellId))
         else Inl TypeError)
      else Inr False)"

section \<open>The game object (lines 36 to 80)\<close>

definition setup_G :: G where
  "setup_G =
     \<lparr>boards = replicate 9 \<lparr>cells = replicate 9 Null, complete = False, winner = Null\<rparr>,
      nextBoardId = None\<rparr>"

text \<open>
  \<open>markCell\<close> mutates \<open>G\<close> in place; the model passes \<open>G\<close> through and returns it with
  the outcome of the call: \<open>None\<close> for a normal return, \<open>Some INVALID_MOVE\<close> for the
  early return of line 51, \<open>Some TypeError\<close> where a property of \<open>undefined\<close> is read
  (in \<open>isValidMove\<close>, or \<open>G.boards[cellId].complete\<close> of line 63). The call
  \<open>ctx.events.endTurn()\<close> of line 65 belongs to the host runtime and is part of
  \<open>applyMove\<close> below.
\<close>

definition markCell :: "G \<Rightarrow> ctx \<Rightarrow> nat \<Rightarrow> nat \<Rightarrow> error option \<times> G" where
  "markCell g c boardId cellId =
     (case isValidMove g boardId cellId of
        Inl e \<Rightarrow> (Some e, g)
      | Inr False \<Rightarrow> (Some INVALID_MOVE, g)
      | Inr True \<Rightarrow>
          (let b0 = boards g ! boardId;
               b1 = b0\<lparr>cells := js_set (cells b0) cellId (Mark (currentPlayer c))\<rparr>;
               b2 = (if isVictory (cells b1)
                     then b1\<lparr>complete := True, winner := Mark (currentPlayer c)\<rparr>
                     else if isComplete (cells b1) then b1\<lparr>complete := True\<rparr>
                     else b1);
               g1 = g\<lparr>boards := (boards g)[boardId := b2]\<rparr>
           in if cellId < length (boards g1)
              then (None, g1\<lparr>nextBoardId :=
                             (if complete (boards g1 ! cellId) then None else Some cellId)\<rparr>)
              else (Some TypeError, g1)))"

definition endGameIf :: "G \<Rightarrow> ctx \<Rightarrow> gameover option" where
  "endGameIf g c =
     (let cs = boardsToCells (boards g)
      in if isVictory cs then Some (Winner (currentPlayer c))
         else if isComplete cs \<or> allBoardsComplete (boards g) then Some Draw
         else None)"

section \<open>The move enumerator (lines 192 to 202)\<close>

text \<open>A move \<open>{move: 'markCell', args: [boardId, cellId]}\<close> is the pair of its arguments.\<close>

function enumerate_cells :: "G \<Rightarrow> nat \<Rightarrow> nat \<Rightarrow> (nat \<times> nat) list \<Rightarrow> error + (nat \<times> nat) list" where
  "enumerate_cells g boardId cellId moves =
     (if cellId < 9 then
        (case isValidMove g boardId cellId of
           Inl e \<Rightarrow> Inl e
         | Inr v \<Rightarrow>
             enumerate_cells g boardId (cellId + 1)
               (if v then moves @ [(boardId, cellId)] else moves))
      else Inr moves)"
  by pat_completeness auto
termination
  by (relation "measure (\<lambda>(g, boardId, cellId, moves). 9 - cellId)") auto

function enumerate_boards :: "G \<Rightarrow> nat \<Rightarrow> (nat \<times> nat) list \<Rightarrow> error + (nat \<times> nat) list" where
  "enumerate_boards g boardId moves =
     (if boardId < 9 then
        (case enumerate_cells g boardId 0 moves of
           Inl e \<Rightarrow> Inl e
         | Inr moves' \<Rightarrow> enumerate_boards g (boardId + 1) moves')
      else Inr moves)"
  by pat_completeness auto
termination
  by (relation "measure (\<lambda>(g, boardId, moves). 9 - boardId)") auto

definition enumerate_moves :: "G \<Rightarrow> error + (nat \<times> nat) list" where
  "enumerate_moves g = enumerate_boards g 0 []"

section \<open>The host runtime's move dispatch\<close>

text \<open>
  The source hands turn order, the game outcome and the rejection of moves to its host
  runtime (\<open>boardgame.io\<close>, imported at lines 4 to 6), which is not part of the source.
  The three definitions below model that runtime from the specification.
\<close>

text \<open>
  Modelled from the spec: the player the runtime passes the turn to ("switch
  \<open>currentPlayer\<close> to the other player", section 4.1, step 5).
\<close>

definition other :: "player \<Rightarrow> player" where
  "other p = (case p of PLAYER_0 \<Rightarrow> PLAYER_1 | PLAYER_1 \<Rightarrow> PLAYER_0)"

text \<open>
  Modelled from the spec: the runtime's \<open>ctx\<close> at game start (section 3: \<open>currentPlayer\<close> is
  \<open>PLAYER_0\<close>, the outcome is ongoing).
\<close>

definition setup_ctx :: ctx where
  "setup_ctx = \<lparr>currentPlayer = PLAYER_0, gameover = None\<rparr>"

definition initial :: state where
  "initial = (setup_G, setup_ctx)"

text \<open>
  Modelled from the spec: the runtime's dispatch of the move \<open>markCell\<close> (sections 3, 4.1
  and 7). A move made after the outcome is set is rejected. A move for which \<open>markCell\<close>
  returns \<open>INVALID_MOVE\<close> or throws leaves the stored state as it was. Otherwise
  \<open>endGameIf\<close> is evaluated on the post-move \<open>G\<close> while \<open>ctx.currentPlayer\<close> is still the
  player who moved; a defined result is stored in \<open>ctx.gameover\<close>, and only when there is
  none the turn passes to the other player (the effect of \<open>ctx.events.endTurn()\<close>,
  line 65).
\<close>

definition applyMove :: "state \<Rightarrow> nat \<Rightarrow> nat \<Rightarrow> error option \<times> state" where
  "applyMove s boardId cellId =
     (if gameover (snd s) \<noteq> None then (Some INVALID_MOVE, s)
      else
        (case markCell (fst s) (snd s) boardId cellId of
           (Some e, g') \<Rightarrow> (Some e, s)
         | (None, g') \<Rightarrow>
             (case endGameIf g' (snd s) of
                Some r \<Rightarrow> (None, (g', (snd s)\<lparr>gameover := Some r\<rparr>))
              | None \<Rightarrow>
                  (None, (g', (snd s)\<lparr>currentPlayer := other (currentPlayer (snd s))\<rparr>)))))"

text \<open>Playing a list of moves from a state, stopping at the first one that fails.\<close>

fun play :: "state \<Rightarrow> (nat \<times> nat) list \<Rightarrow> state option" where
  "play s [] = Some s"
| "play s (m # ms) =
     (case applyMove s (fst m) (snd m) of
        (None, s') \<Rightarrow> play s' ms
      | (Some e, s') \<Rightarrow> None)"

inductive reachable :: "state \<Rightarrow> bool" where
  reachable_initial: "reachable initial"
| reachable_move: "reachable s \<Longrightarrow> applyMove s boardId cellId = (None, s') \<Longrightarrow> reachable s'"

section \<open>The data model's invariant and the notions the properties are stated with\<close>

text \<open>
  A board of the data model has nine cells, each \<open>null\<close> or a player id, and a winner
  only when it is complete. A state of the data model has nine such boards.
\<close>

definition board_inv :: "board \<Rightarrow> bool" where
  "board_inv b \<longleftrightarrow>
     length (cells b) = 9 \<and> Undefined \<notin> set (cells b) \<and> winner b \<noteq> Undefined \<and>
     (winner b \<noteq> Null \<longrightarrow> complete b)"

definition G_inv :: "G \<Rightarrow> bool" where
  "G_inv g \<longleftrightarrow> length (boards g) = 9 \<and> list_all board_inv (boards g)"

text \<open>
  A legal move: the game has no outcome yet, both indices are in 0 to 8, and the source's
  \<open>isValidMove\<close> returns \<open>true\<close>.
\<close>

definition legal :: "state \<Rightarrow> nat \<Rightarrow> nat \<Rightarrow> bool" where
  "legal s boardId cellId \<longleftrightarrow>
     gameover (snd s) = None \<and> boardId < 9 \<and> cellId < 9 \<and>
     isValidMove (fst s) boardId cellId = Inr True"

text \<open>
  The specification's \<open>isValidMove\<close>, following its words (section 4.1): the outcome is
  ongoing, both indices are in 0 to 8, the board is not complete, the cell is EMPTY, and
  \<open>nextBoardId\<close> is "any" or the board played.
\<close>

definition isValidMove_spec :: "state \<Rightarrow> nat \<Rightarrow> nat \<Rightarrow> bool" where
  "isValidMove_spec s boardId cellId \<longleftrightarrow>
     gameover (snd s) = None \<and> boardId < 9 \<and> cellId < 9 \<and>
     \<not> complete (boards (fst s) ! boardId) \<and>
     cells (boards (fst s) ! boardId) ! cellId = Null \<and>
     (nextBoardId (fst s) = None \<or> nextBoardId (fst s) = Some boardId)"

text \<open>
  The specification's \<open>hasWinningLine\<close>, following its words: one of the eight index
  triples holds the same player's mark three times.
\<close>

definition lines :: "(nat \<times> nat \<times> nat) list" where
  "lines =
     [(0, 1, 2), (3, 4, 5), (6, 7, 8), (0, 3, 6), (1, 4, 7), (2, 5, 8), (0, 4, 8), (2, 4, 6)]"

definition line_wins :: "mark list \<Rightarrow> nat \<times> nat \<times> nat \<Rightarrow> bool" where
  "line_wins ms l =
     (case l of (i, j, k) \<Rightarrow>
        (case ms ! i of Mark p \<Rightarrow> ms ! j = Mark p \<and> ms ! k = Mark p | _ \<Rightarrow> False))"

definition hasWinningLine :: "mark list \<Rightarrow> bool" where
  "hasWinningLine ms \<longleftrightarrow> list_ex (line_wins ms) lines"

text \<open>Ascending order of moves: by board, then by cell.\<close>

definition move_less :: "nat \<times> nat \<Rightarrow> nat \<times> nat \<Rightarrow> bool" where
  "move_less m m' \<longleftrightarrow> fst m < fst m' \<or> (fst m = fst m' \<and> snd m < snd m')"

text \<open>A move for which \<open>isValidMove\<close> returns \<open>true\<close>.\<close>

definition valid_move :: "G \<Rightarrow> nat \<times> nat \<Rightarrow> bool" where
  "valid_move g m \<longleftrightarrow> isValidMove g (fst m) (snd m) = Inr True"

subsection \<open>Two concrete games\<close>

text \<open>
  A game of 21 moves that \<open>PLAYER_0\<close> wins with boards 1, 4 and 7 (the middle column of
  the meta-grid), and the state it ends in.
\<close>

definition won_game :: "(nat \<times> nat) list" where
  "won_game =
     [(7, 0), (0, 7), (7, 3), (3, 4), (4, 4), (4, 7), (7, 6), (6, 1), (1, 8), (8, 4), (4, 3),
      (3, 1), (1, 2), (2, 1), (1, 5), (5, 7), (4, 0), (0, 8), (8, 0), (0, 4), (4, 5)]"

definition won_state :: state where
  "won_state =
    (\<lparr>boards =
       [\<lparr>cells = [Null, Null, Null, Null, Mark PLAYER_1, Null, Null, Mark PLAYER_1, Mark PLAYER_1],
         complete = False, winner = Null\<rparr>,
        \<lparr>cells = [Null, Null, Mark PLAYER_0, Null, Null, Mark PLAYER_0, Null, Null, Mark PLAYER_0],
         complete = True, winner = Mark PLAYER_0\<rparr>,
        \<lparr>cells = [Null, Mark PLAYER_1, Null, Null, Null, Null, Null, Null, Null],
         complete = False, winner = Null\<rparr>,
        \<lparr>cells = [Null, Mark PLAYER_1, Null, Null, Mark PLAYER_1, Null, Null, Null, Null],
         complete = False, winner = Null\<rparr>,
        \<lparr>cells = [Mark PLAYER_0, Null, Null, Mark PLAYER_0, Mark PLAYER_0, Mark PLAYER_0, Null, Mark PLAYER_1, Null],
         complete = True, winner = Mark PLAYER_0\<rparr>,
        \<lparr>cells = [Null, Null, Null, Null, Null, Null, Null, Mark PLAYER_1, Null],
         complete = False, winner = Null\<rparr>,
        \<lparr>cells = [Null, Mark PLAYER_1, Null, Null, Null, Null, Null, Null, Null],
         complete = False, winner = Null\<rparr>,
        \<lparr>cells = [Mark PLAYER_0, Null, Null, Mark PLAYER_0, Null, Null, Mark PLAYER_0, Null, Null],
         complete = True, winner = Mark PLAYER_0\<rparr>,
        \<lparr>cells = [Mark PLAYER_0, Null, Null, Null, Mark PLAYER_1, Null, Null, Null, Null],
         complete = False, winner = Null\<rparr>],
      nextBoardId = Some 5\<rparr>,
     \<lparr>currentPlayer = PLAYER_0, gameover = Some (Winner PLAYER_0)\<rparr>)"

text \<open>The state before the last move of \<open>won_game\<close>: board 4 is to be played by \<open>PLAYER_0\<close>.\<close>

definition before_win_state :: state where
  "before_win_state =
    (\<lparr>boards =
       [\<lparr>cells = [Null, Null, Null, Null, Mark PLAYER_1, Null, Null, Mark PLAYER_1, Mark PLAYER_1],
         complete = False, winner = Null\<rparr>,
        \<lparr>cells = [Null, Null, Mark PLAYER_0, Null, Null, Mark PLAYER_0, Null, Null, Mark PLAYER_0],
         complete = True, winner = Mark PLAYER_0\<rparr>,
        \<lparr>cells = [Null, Mark PLAYER_1, Null, Null, Null, Null, Null, Null, Null],
         complete = False, winner = Null\<rparr>,
        \<lparr>cells = [Null, Mark PLAYER_1, Null, Null, Mark PLAYER_1, Null, Null, Null, Null],
         complete = False, winner = Null\<rparr>,
        \<lparr>cells = [Mark PLAYER_0, Null, Null, Mark PLAYER_0, Mark PLAYER_0, Null, Null, Mark PLAYER_1, Null],
         complete = False, winner = Null\<rparr>,
        \<lparr>cells = [Null, Null, Null, Null, Null, Null, Null, Mark PLAYER_1, Null],
         complete = False, winner = Null\<rparr>,
        \<lparr>cells = [Null, Mark PLAYER_1, Null, Null, Null, Null, Null, Null, Null],
         complete = False, winner = Null\<rparr>,
        \<lparr>cells = [Mark PLAYER_0, Null, Null, Mark PLAYER_0, Null, Null, Mark PLAYER_0, Null, Null],
         complete = True, winner = Mark PLAYER_0\<rparr>,
        \<lparr>cells = [Mark PLAYER_0, Null, Null, Null, Mark PLAYER_1, Null, Null, Null, Null],
         complete = False, winner = Null\<rparr>],
      nextBoardId = Some 4\<rparr>,
     \<lparr>currentPlayer = PLAYER_0, gameover = None\<rparr>)"

text \<open>
  A game of 24 moves after which board 8 is full without a line while the game goes on,
  and the state it reaches: board 0 is to be played by \<open>PLAYER_0\<close>.
\<close>

definition drawn_board_game :: "(nat \<times> nat) list" where
  "drawn_board_game =
     [(8, 2), (2, 8), (8, 1), (1, 3), (3, 8), (8, 5), (5, 6), (6, 8), (8, 8), (8, 7), (7, 5),
      (5, 1), (1, 8), (8, 6), (6, 4), (4, 8), (8, 3), (3, 7), (7, 8), (8, 4), (4, 3), (3, 5),
      (5, 8), (8, 0)]"

definition drawn_board_state :: state where
  "drawn_board_state =
    (\<lparr>boards =
       [\<lparr>cells = [Null, Null, Null, Null, Null, Null, Null, Null, Null],
         complete = False, winner = Null\<rparr>,
        \<lparr>cells = [Null, Null, Null, Mark PLAYER_1, Null, Null, Null, Null, Mark PLAYER_0],
         complete = False, winner = Null\<rparr>,
        \<lparr>cells = [Null, Null, Null, Null, Null, Null, Null, Null, Mark PLAYER_1],
         complete = False, winner = Null\<rparr>,
        \<lparr>cells = [Null, Null, Null, Null, Null, Mark PLAYER_1, Null, Mark PLAYER_1, Mark PLAYER_0],
         complete = False, winner = Null\<rparr>,
        \<lparr>cells = [Null, Null, Null, Mark PLAYER_0, Null, Null, Null, Null, Mark PLAYER_1],
         complete = False, winner = Null\<rparr>,
        \<lparr>cells = [Null, Mark PLAYER_1, Null, Null, Null, Null, Mark PLAYER_0, Null, Mark PLAYER_0],
         complete = False, winner = Null\<rparr>,
        \<lparr>cells = [Null, Null, Null, Null, Mark PLAYER_0, Null, Null, Null, Mark PLAYER_1],
         complete = False, winner = Null\<rparr>,
        \<lparr>cells = [Null, Null, Null, Null, Null, Mark PLAYER_0, Null, Null, Mark PLAYER_0],
         complete = False, winner = Null\<rparr>,
        \<lparr>cells = [Mark PLAYER_1, Mark PLAYER_0, Mark PLAYER_0, Mark PLAYER_0, Mark PLAYER_1, Mark PLAYER_1, Mark PLAYER_1, Mark PLAYER_1, Mark PLAYER_0],
         complete = True, winner = Null\<rparr>],
      nextBoardId = Some 0\<rparr>,
     \<lparr>currentPlayer = PLAYER_0, gameover = None\<rparr>)"

section \<open>Auxiliary lemmas\<close>

declare enumerate_cells.simps [simp del]

declare enumerate_boards.simps [simp del]

lemma js_nth_in: "i < length xs \<Longrightarrow> js_nth xs i = xs ! i"
  by (simp add: js_nth_def)

lemma js_set_in: "i < length xs \<Longrightarrow> js_set xs i v = xs[i := v]"
  by (simp add: js_set_def)

lemma isVictory_nth:
  assumes "length cs = 9"
  shows "isVictory cs \<longleftrightarrow>
     (cs ! 0 \<noteq> Null \<and> cs ! 0 = cs ! 1 \<and> cs ! 0 = cs ! 2) \<or>
     (cs ! 3 \<noteq> Null \<and> cs ! 3 = cs ! 4 \<and> cs ! 3 = cs ! 5) \<or>
     (cs ! 6 \<noteq> Null \<and> cs ! 6 = cs ! 7 \<and> cs ! 6 = cs ! 8) \<or>
     (cs ! 0 \<noteq> Null \<and> cs ! 0 = cs ! 3 \<and> cs ! 0 = cs ! 6) \<or>
     (cs ! 1 \<noteq> Null \<and> cs ! 1 = cs ! 4 \<and> cs ! 1 = cs ! 7) \<or>
     (cs ! 2 \<noteq> Null \<and> cs ! 2 = cs ! 5 \<and> cs ! 2 = cs ! 8) \<or>
     (cs ! 0 \<noteq> Null \<and> cs ! 0 = cs ! 4 \<and> cs ! 0 = cs ! 8) \<or>
     (cs ! 2 \<noteq> Null \<and> cs ! 2 = cs ! 4 \<and> cs ! 2 = cs ! 6)"
  using assms by (simp add: isVictory_def js_nth_def)

lemma same_mark_iff:
  "x \<noteq> Undefined \<Longrightarrow>
     (x \<noteq> Null \<and> x = y \<and> x = z) =
     (case x of Mark p \<Rightarrow> y = Mark p \<and> z = Mark p | _ \<Rightarrow> False)"
  by (cases x) auto

lemma isVictory_hasWinningLine:
  assumes len: "length cs = 9" and nu: "Undefined \<notin> set cs"
  shows "isVictory cs = hasWinningLine cs"
proof -
  have d: "cs ! i \<noteq> Undefined" if "i < 9" for i
    using that len nu nth_mem [of i cs] by metis
  show ?thesis
    unfolding isVictory_nth [OF len] hasWinningLine_def lines_def
    by (simp add: line_wins_def same_mark_iff d)
qed

lemma isComplete_iff: "isComplete cs \<longleftrightarrow> Null \<notin> set cs"
  by (auto simp: isComplete_def filter_empty_conv)

lemma allBoardsComplete_iff: "allBoardsComplete bs \<longleftrightarrow> (\<forall>b \<in> set bs. complete b)"
  by (auto simp: allBoardsComplete_def filter_empty_conv)

lemma isValidMove_TrueD:
  assumes "isValidMove g boardId cellId = Inr True"
  shows "boardId < length (boards g)"
    and "\<not> complete (boards g ! boardId)"
    and "loose_null (js_nth (cells (boards g ! boardId)) cellId)"
    and "nextBoardId g = None \<or> nextBoardId g = Some boardId"
  using assms by (auto simp: isValidMove_def split: if_splits)

lemma G_inv_board: "G_inv g \<Longrightarrow> i < 9 \<Longrightarrow> board_inv (boards g ! i)"
  by (simp add: G_inv_def list_all_length)

lemma board_inv_open:
  assumes "board_inv b" "\<not> complete b"
  shows "winner b = Null"
  using assms by (auto simp: board_inv_def)


lemma markCell_valid:
  assumes inv: "G_inv g" and k: "cellId < 9"
    and v: "isValidMove g boardId cellId = Inr True"
  shows "\<exists>b'. markCell g c boardId cellId =
            (None, g\<lparr>boards := (boards g)[boardId := b'],
                     nextBoardId := (if complete ((boards g)[boardId := b'] ! cellId)
                                     then None else Some cellId)\<rparr>) \<and>
          cells b' = (cells (boards g ! boardId))[cellId := Mark (currentPlayer c)] \<and>
          complete b' = (isVictory (cells b') \<or> isComplete (cells b')) \<and>
          winner b' = (if isVictory (cells b') then Mark (currentPlayer c) else Null)"
proof -
  let ?b0 = "boards g ! boardId"
  let ?p = "Mark (currentPlayer c)"
  let ?cs = "(cells ?b0)[cellId := ?p]"
  let ?b2 = "if isVictory ?cs then ?b0\<lparr>cells := ?cs, complete := True, winner := ?p\<rparr>
             else if isComplete ?cs then ?b0\<lparr>cells := ?cs, complete := True\<rparr>
             else ?b0\<lparr>cells := ?cs\<rparr>"
  have len: "length (boards g) = 9"
    using inv by (simp add: G_inv_def)
  have b: "boardId < 9"
    using isValidMove_TrueD(1) [OF v] len by simp
  have bi: "board_inv ?b0"
    using G_inv_board [OF inv b] .
  have opn: "\<not> complete ?b0"
    using isValidMove_TrueD(2) [OF v] .
  have w0: "winner ?b0 = Null"
    using board_inv_open [OF bi opn] .
  have clen: "length (cells ?b0) = 9"
    using bi by (simp add: board_inv_def)
  have set: "js_set (cells ?b0) cellId ?p = ?cs"
    using k clen by (simp add: js_set_in)
  have mc: "markCell g c boardId cellId =
      (None, g\<lparr>boards := (boards g)[boardId := ?b2],
               nextBoardId := (if complete ((boards g)[boardId := ?b2] ! cellId)
                               then None else Some cellId)\<rparr>)"
    using k len by (simp add: markCell_def v set Let_def)
  have c2: "cells ?b2 = ?cs"
    by simp
  have "complete ?b2 = (isVictory ?cs \<or> isComplete ?cs)"
    using opn by simp
  moreover have "winner ?b2 = (if isVictory ?cs then ?p else Null)"
    using w0 by simp
  ultimately show ?thesis
    using mc c2 by (intro exI [of _ ?b2]) (simp only: simp_thms)
qed

lemma markCell_NoneD:
  assumes "markCell g c boardId cellId = (None, g')"
  shows "isValidMove g boardId cellId = Inr True" and "cellId < length (boards g)"
  using assms
  by (auto simp: markCell_def Let_def split: sum.splits bool.splits if_splits)

lemma applyMove_NoneD:
  assumes "applyMove s boardId cellId = (None, s')"
  shows "gameover (snd s) = None"
    and "markCell (fst s) (snd s) boardId cellId = (None, fst s')"
  using assms
  by (auto simp: applyMove_def split: if_splits prod.splits option.splits)

lemma applyMove_ctx:
  assumes "applyMove s boardId cellId = (None, s')"
  shows "snd s' = (case endGameIf (fst s') (snd s) of
                     Some r \<Rightarrow> (snd s)\<lparr>gameover := Some r\<rparr>
                   | None \<Rightarrow> (snd s)\<lparr>currentPlayer := other (currentPlayer (snd s))\<rparr>)"
  using assms
  by (auto simp: applyMove_def split: if_splits prod.splits option.splits)

lemma applyMove_legal:
  assumes inv: "G_inv (fst s)" and l: "legal s boardId cellId"
  shows "\<exists>s'. applyMove s boardId cellId = (None, s')"
proof -
  from l have go: "gameover (snd s) = None" and k: "cellId < 9"
    and v: "isValidMove (fst s) boardId cellId = Inr True"
    by (simp_all add: legal_def)
  from markCell_valid [OF inv k v, of "snd s"]
  obtain g' where "markCell (fst s) (snd s) boardId cellId = (None, g')"
    by blast
  then show ?thesis
    using go by (simp add: applyMove_def split: option.splits)
qed

text \<open>On a state of the data model, the legal moves are the ones \<open>applyMove\<close> accepts.\<close>

lemma legal_iff_applied:
  assumes inv: "G_inv (fst s)"
  shows "legal s boardId cellId \<longleftrightarrow> (\<exists>s'. applyMove s boardId cellId = (None, s'))"
proof
  assume "legal s boardId cellId"
  then show "\<exists>s'. applyMove s boardId cellId = (None, s')"
    using applyMove_legal [OF inv] by blast
next
  assume "\<exists>s'. applyMove s boardId cellId = (None, s')"
  then obtain s' where r: "applyMove s boardId cellId = (None, s')"
    by blast
  have len: "length (boards (fst s)) = 9"
    using inv by (simp add: G_inv_def)
  have v: "isValidMove (fst s) boardId cellId = Inr True" and k: "cellId < 9"
    using markCell_NoneD [OF applyMove_NoneD(2) [OF r]] len by simp_all
  have "boardId < 9"
    using isValidMove_TrueD(1) [OF v] len by simp
  then show "legal s boardId cellId"
    using applyMove_NoneD(1) [OF r] v k by (simp add: legal_def)
qed

lemma G_inv_setup: "G_inv setup_G"
  by (simp add: G_inv_def setup_G_def board_inv_def list_all_length)

lemma board_inv_update:
  assumes bi: "board_inv b0" and k: "cellId < 9"
    and cs: "cells b' = (cells b0)[cellId := Mark p]"
    and co: "complete b' = (isVictory (cells b') \<or> isComplete (cells b'))"
    and wi: "winner b' = (if isVictory (cells b') then Mark p else Null)"
  shows "board_inv b'"
proof -
  have "set (cells b') \<subseteq> insert (Mark p) (set (cells b0))"
    unfolding cs by (rule set_update_subset_insert)
  then have "Undefined \<notin> set (cells b')"
    using bi by (auto simp: board_inv_def)
  moreover have "length (cells b') = 9"
    using bi by (simp add: cs board_inv_def)
  ultimately show ?thesis
    using co wi by (simp add: board_inv_def)
qed

lemma markCell_preserves:
  assumes inv: "G_inv g" and mc: "markCell g c boardId cellId = (None, g')"
  shows "G_inv g'"
proof -
  have len: "length (boards g) = 9"
    using inv by (simp add: G_inv_def)
  have v: "isValidMove g boardId cellId = Inr True" and k: "cellId < 9"
    using markCell_NoneD [OF mc] len by simp_all
  have b: "boardId < 9"
    using isValidMove_TrueD(1) [OF v] len by simp
  from markCell_valid [OF inv k v, of c]
  obtain b' where r: "markCell g c boardId cellId =
        (None, g\<lparr>boards := (boards g)[boardId := b'],
                 nextBoardId := (if complete ((boards g)[boardId := b'] ! cellId)
                                 then None else Some cellId)\<rparr>)"
    and cs: "cells b' = (cells (boards g ! boardId))[cellId := Mark (currentPlayer c)]"
    and co: "complete b' = (isVictory (cells b') \<or> isComplete (cells b'))"
    and wi: "winner b' = (if isVictory (cells b') then Mark (currentPlayer c) else Null)"
    by blast
  have g': "boards g' = (boards g)[boardId := b']"
    using r mc by auto
  have bi: "board_inv b'"
    using board_inv_update [OF G_inv_board [OF inv b] k cs co wi] .
  have "board_inv (boards g' ! i)" if "i < 9" for i
    using that bi G_inv_board [OF inv that] len
    by (cases "i = boardId") (simp_all add: g')
  then show ?thesis
    using len by (simp add: G_inv_def g' list_all_length)
qed

lemma applyMove_preserves:
  assumes "G_inv (fst s)" and "applyMove s boardId cellId = (None, s')"
  shows "G_inv (fst s')"
  using markCell_preserves [OF assms(1) applyMove_NoneD(2) [OF assms(2)]] .

lemma reachable_G_inv: "reachable s \<Longrightarrow> G_inv (fst s)"
proof (induction rule: reachable.induct)
  case reachable_initial
  show ?case by (simp add: initial_def G_inv_setup)
next
  case (reachable_move s boardId cellId s')
  then show ?case by (blast intro: applyMove_preserves)
qed

lemma play_reachable: "reachable s \<Longrightarrow> play s ms = Some s' \<Longrightarrow> reachable s'"
proof (induction ms arbitrary: s)
  case Nil
  then show ?case by simp
next
  case (Cons m ms)
  obtain e t where r: "applyMove s (fst m) (snd m) = (e, t)"
    by (cases "applyMove s (fst m) (snd m)")
  with Cons.prems(2) have e: "e = None" and p: "play t ms = Some s'"
    by (auto split: option.splits)
  have "reachable t"
    using reachable_move [OF Cons.prems(1)] r e by blast
  then show ?case
    using Cons.IH p by blast
qed

lemma play_won_game: "play initial won_game = Some won_state"
  by code_simp

lemma play_drawn_board_game: "play initial drawn_board_game = Some drawn_board_state"
  by code_simp

lemma reachable_won_state: "reachable won_state"
  using play_reachable [OF reachable_initial play_won_game] .

lemma reachable_drawn_board_state: "reachable drawn_board_state"
  using play_reachable [OF reachable_initial play_drawn_board_game] .

lemma applyMove_legal_result:
  assumes inv: "G_inv (fst s)" and l: "legal s boardId cellId"
    and r: "applyMove s boardId cellId = (e, s')"
  shows "\<exists>b'. e = None \<and>
           boards (fst s') = (boards (fst s))[boardId := b'] \<and>
           nextBoardId (fst s') =
             (if complete (boards (fst s') ! cellId) then None else Some cellId) \<and>
           cells b' = (cells (boards (fst s) ! boardId))[cellId := Mark (currentPlayer (snd s))] \<and>
           complete b' = (isVictory (cells b') \<or> isComplete (cells b')) \<and>
           winner b' = (if isVictory (cells b') then Mark (currentPlayer (snd s)) else Null)"
proof -
  from l have k: "cellId < 9"
    and v: "isValidMove (fst s) boardId cellId = Inr True"
    by (simp_all add: legal_def)
  from applyMove_legal [OF inv l] r have e: "e = None"
    by auto
  have mc: "markCell (fst s) (snd s) boardId cellId = (None, fst s')"
    using applyMove_NoneD(2) r e by blast
  from markCell_valid [OF inv k v, of "snd s"]
  obtain b' where m: "markCell (fst s) (snd s) boardId cellId =
        (None, (fst s)\<lparr>boards := (boards (fst s))[boardId := b'],
                 nextBoardId := (if complete ((boards (fst s))[boardId := b'] ! cellId)
                                 then None else Some cellId)\<rparr>)"
    and cs: "cells b' =
               (cells (boards (fst s) ! boardId))[cellId := Mark (currentPlayer (snd s))]"
    and co: "complete b' = (isVictory (cells b') \<or> isComplete (cells b'))"
    and wi: "winner b' = (if isVictory (cells b') then Mark (currentPlayer (snd s)) else Null)"
    by blast
  have g': "fst s' = (fst s)\<lparr>boards := (boards (fst s))[boardId := b'],
                 nextBoardId := (if complete ((boards (fst s))[boardId := b'] ! cellId)
                                 then None else Some cellId)\<rparr>"
    using m mc by simp
  have "boards (fst s') = (boards (fst s))[boardId := b']"
    by (simp add: g')
  moreover have "nextBoardId (fst s') =
             (if complete (boards (fst s') ! cellId) then None else Some cellId)"
    by (simp add: g')
  ultimately show ?thesis
    using e cs co wi by blast
qed

lemma applyMove_gameover:
  assumes "gameover (snd s) = None" and "applyMove s boardId cellId = (None, s')"
  shows "gameover (snd s') = endGameIf (fst s') (snd s)"
  using assms(1) applyMove_ctx [OF assms(2)]
  by (simp split: option.splits)

lemma winners_of_inv:
  assumes "G_inv g"
  shows "length (map winner (boards g)) = 9"
    and "Undefined \<notin> set (map winner (boards g))"
    and "Null \<notin> set (map winner (boards g)) \<Longrightarrow> list_all complete (boards g)"
proof -
  have a: "\<forall>b \<in> set (boards g). winner b \<noteq> Undefined \<and> (winner b \<noteq> Null \<longrightarrow> complete b)"
    using assms by (simp add: G_inv_def board_inv_def list_all_iff)
  show "length (map winner (boards g)) = 9"
    using assms by (simp add: G_inv_def)
  show "Undefined \<notin> set (map winner (boards g))"
    using a by force
  show "list_all complete (boards g)" if "Null \<notin> set (map winner (boards g))"
    unfolding list_all_iff
  proof
    fix b assume b: "b \<in> set (boards g)"
    then have "winner b \<in> set (map winner (boards g))"
      by simp
    with that have "winner b \<noteq> Null"
      by metis
    with a b show "complete b"
      by blast
  qed
qed

lemma draw_test_inv:
  assumes "G_inv g"
  shows "(isComplete (boardsToCells (boards g)) \<or> allBoardsComplete (boards g)) =
           allBoardsComplete (boards g)"
  using winners_of_inv(3) [OF assms]
  by (auto simp: isComplete_iff allBoardsComplete_iff boardsToCells_def list_all_iff)

lemma endGameIf_inv:
  assumes "G_inv g"
  shows "endGameIf g c =
           (if hasWinningLine (map winner (boards g)) then Some (Winner (currentPlayer c))
            else if list_all complete (boards g) then Some Draw
            else None)"
proof -
  have v: "isVictory (map winner (boards g)) = hasWinningLine (map winner (boards g))"
    using isVictory_hasWinningLine [OF winners_of_inv(1,2) [OF assms]] .
  have d: "allBoardsComplete (boards g) = list_all complete (boards g)"
    by (simp add: allBoardsComplete_iff list_all_iff)
  show ?thesis
    using draw_test_inv [OF assms]
    by (simp add: endGameIf_def Let_def v d [symmetric] boardsToCells_def)
qed

lemma play_before_win: "play initial (butlast won_game) = Some before_win_state"
  by code_simp

lemma reachable_before_win_state: "reachable before_win_state"
  using play_reachable [OF reachable_initial play_before_win] .

lemma winning_move: "applyMove before_win_state 4 5 = (None, won_state)"
  by code_simp

lemma legal_winning_move: "legal before_win_state 4 5"
  by code_simp

lemma first_move: "legal drawn_board_state 0 0"
  by code_simp

lemma valid_cell_empty:
  assumes inv: "G_inv g" and k: "cellId < 9"
    and v: "isValidMove g boardId cellId = Inr True"
  shows "cells (boards g ! boardId) ! cellId = Null"
proof -
  let ?cs = "cells (boards g ! boardId)"
  have "boardId < 9"
    using isValidMove_TrueD(1) [OF v] inv by (simp add: G_inv_def)
  then have bi: "board_inv (boards g ! boardId)"
    using G_inv_board [OF inv] by blast
  then have clen: "length ?cs = 9" and nu: "Undefined \<notin> set ?cs"
    by (simp_all add: board_inv_def)
  have "?cs ! cellId \<in> set ?cs"
    using k clen by simp
  with nu have "?cs ! cellId \<noteq> Undefined"
    by metis
  moreover have "loose_null (?cs ! cellId)"
    using isValidMove_TrueD(3) [OF v] k clen by (simp add: js_nth_in)
  ultimately show ?thesis
    by (simp add: loose_null_def)
qed

lemma isValidMove_returns:
  assumes "boardId < length (boards g)"
  shows "\<exists>v. isValidMove g boardId cellId = Inr v"
  using assms by (auto simp: isValidMove_def)

lemma enumerate_cells_eq:
  assumes "boardId < length (boards g)"
  shows "enumerate_cells g boardId cellId moves =
           Inr (moves @ filter (valid_move g) (map (Pair boardId) [cellId..<9]))"
  using assms
proof (induction g boardId cellId moves rule: enumerate_cells.induct)
  case (1 g boardId cellId moves)
  show ?case
  proof (cases "cellId < 9")
    case True
    from isValidMove_returns [OF "1.prems"]
    obtain v where v: "isValidMove g boardId cellId = Inr v"
      by blast
    have upt: "[cellId..<9] = cellId # [cellId + 1..<9]"
      using True by (simp add: upt_conv_Cons)
    have "enumerate_cells g boardId cellId moves =
            enumerate_cells g boardId (cellId + 1)
              (if v then moves @ [(boardId, cellId)] else moves)"
      using True v by (subst enumerate_cells.simps) simp
    also have "\<dots> = Inr ((if v then moves @ [(boardId, cellId)] else moves) @
                       filter (valid_move g) (map (Pair boardId) [cellId + 1..<9]))"
      using "1.IH" [OF True v "1.prems"] .
    also have "\<dots> = Inr (moves @ filter (valid_move g) (map (Pair boardId) [cellId..<9]))"
      using v by (simp add: upt valid_move_def)
    finally show ?thesis .
  next
    case False
    then show ?thesis
      by (subst enumerate_cells.simps) simp
  qed
qed

lemma enumerate_boards_eq:
  assumes "length (boards g) = 9"
  shows "enumerate_boards g boardId moves =
           Inr (moves @ filter (valid_move g) (List.product [boardId..<9] [0..<9]))"
  using assms
proof (induction g boardId moves rule: enumerate_boards.induct)
  case (1 g boardId moves)
  show ?case
  proof (cases "boardId < 9")
    case True
    let ?row = "moves @ filter (valid_move g) (map (Pair boardId) [0..<9])"
    have c: "enumerate_cells g boardId 0 moves = Inr ?row"
      using enumerate_cells_eq [of boardId g 0 moves] True "1.prems" by simp
    have upt: "[boardId..<9] = boardId # [boardId + 1..<9]"
      using True by (simp add: upt_conv_Cons)
    have "enumerate_boards g boardId moves = enumerate_boards g (boardId + 1) ?row"
      using True c by (subst enumerate_boards.simps) simp
    also have "\<dots> = Inr (?row @ filter (valid_move g) (List.product [boardId + 1..<9] [0..<9]))"
      using "1.IH" [OF True c "1.prems"] .
    also have "\<dots> = Inr (moves @ filter (valid_move g) (List.product [boardId..<9] [0..<9]))"
      by (simp add: upt)
    finally show ?thesis .
  next
    case False
    then show ?thesis
      by (subst enumerate_boards.simps) simp
  qed
qed

lemma sorted_product:
  assumes "sorted_wrt (<) xs" and "sorted_wrt (<) ys"
  shows "sorted_wrt move_less (List.product xs ys)"
  using assms(1)
proof (induction xs)
  case Nil
  show ?case by simp
next
  case (Cons x xs)
  have "sorted_wrt move_less (map (Pair x) ys)"
    using assms(2) by (simp add: sorted_wrt_map move_less_def)
  moreover have "sorted_wrt move_less (List.product xs ys)"
    using Cons by simp
  moreover have "\<forall>m \<in> set (map (Pair x) ys). \<forall>m' \<in> set (List.product xs ys). move_less m m'"
    using Cons.prems by (auto simp: move_less_def)
  ultimately show ?case
    by (simp add: sorted_wrt_append)
qed

section \<open>The properties\<close>

text \<open>
  C1 (as amended). On a state of the data model and for \<open>boardId\<close> and \<open>cellId\<close> in 0 to
  8, \<open>isValidMove\<close> returns a boolean, and it is \<open>true\<close> exactly when the board is not
  complete, the cell is \<open>null\<close>, and \<open>nextBoardId\<close> is \<open>null\<close> or the board played. The
  game outcome is not an input of \<open>isValidMove\<close>.
\<close>

theorem isValidMove_in_range:
  assumes "G_inv g" and "boardId < 9" and "cellId < 9"
  shows "isValidMove g boardId cellId =
           Inr (\<not> complete (boards g ! boardId) \<and>
                cells (boards g ! boardId) ! cellId = Null \<and>
                (nextBoardId g = None \<or> nextBoardId g = Some boardId))"
proof -
  have len: "length (boards g) = 9"
    using assms(1) by (simp add: G_inv_def)
  have bi: "board_inv (boards g ! boardId)"
    using G_inv_board [OF assms(1,2)] .
  then have clen: "length (cells (boards g ! boardId)) = 9"
    and nu: "Undefined \<notin> set (cells (boards g ! boardId))"
    by (simp_all add: board_inv_def)
  have "cells (boards g ! boardId) ! cellId \<noteq> Undefined"
    using nu clen assms(3) nth_mem [of cellId "cells (boards g ! boardId)"] by metis
  then show ?thesis
    using len clen assms(2,3)
    by (auto simp: isValidMove_def loose_null_def js_nth_in)
qed

text \<open>
  The amended C1 at three inputs: a playable cell, a cell of a complete board, and a cell
  of the finished game \<open>won_state\<close>.
\<close>

theorem isValidMove_in_range_witness:
  "G_inv (fst drawn_board_state) \<and> (0::nat) < 9 \<and> (4::nat) < 9 \<and>
   isValidMove (fst drawn_board_state) 0 4 = Inr True \<and>
   isValidMove (fst drawn_board_state) 8 4 = Inr False \<and>
   isValidMove (fst won_state) 5 0 = Inr True"
proof -
  have a: "G_inv (fst drawn_board_state)"
    using reachable_G_inv [OF reachable_drawn_board_state] .
  have b: "G_inv (fst won_state)"
    using reachable_G_inv [OF reachable_won_state] .
  show ?thesis
    using a isValidMove_in_range [OF a, of 0 4] isValidMove_in_range [OF a, of 8 4]
      isValidMove_in_range [OF b, of 5 0]
    by (simp add: drawn_board_state_def won_state_def)
qed

text \<open>
  C1 as stated fails. After \<open>won_game\<close> the game is won, and \<open>isValidMove\<close> still returns
  \<open>true\<close> for board 5, cell 0; and on the initial state it returns \<open>true\<close> for cell index
  9, where \<open>cells[9]\<close> is \<open>undefined\<close> and \<open>undefined == null\<close> holds.
\<close>

theorem isValidMove_spec_counterexample:
  "play initial won_game = Some won_state \<and>
   isValidMove (fst won_state) 5 0 = Inr True \<and> \<not> isValidMove_spec won_state 5 0 \<and>
   isValidMove (fst initial) 0 9 = Inr True \<and> \<not> isValidMove_spec initial 0 9"
  by code_simp

text \<open>
  C2. When \<open>isValidMove\<close> returns \<open>false\<close>, \<open>markCell\<close> returns \<open>INVALID_MOVE\<close> and \<open>G\<close> is
  as it was; and when \<open>isValidMove\<close> returns \<open>false\<close> or the game has an outcome,
  \<open>applyMove\<close> fails with \<open>INVALID_MOVE\<close> and returns the state it was given, with every
  component unchanged.
\<close>

theorem applyMove_rejects:
  "(isValidMove (fst s) boardId cellId = Inr False \<longrightarrow>
      markCell (fst s) (snd s) boardId cellId = (Some INVALID_MOVE, fst s)) \<and>
   (isValidMove (fst s) boardId cellId = Inr False \<or> gameover (snd s) \<noteq> None \<longrightarrow>
      applyMove s boardId cellId = (Some INVALID_MOVE, s))"
  by (auto simp: applyMove_def markCell_def)

text \<open>
  C2 at a move to board 1 while board 0 is to be played, and at a move after the game
  was won.
\<close>

theorem applyMove_rejects_witness:
  "isValidMove (fst drawn_board_state) 1 0 = Inr False \<and>
   markCell (fst drawn_board_state) (snd drawn_board_state) 1 0 =
     (Some INVALID_MOVE, fst drawn_board_state) \<and>
   applyMove drawn_board_state 1 0 = (Some INVALID_MOVE, drawn_board_state) \<and>
   gameover (snd won_state) \<noteq> None \<and>
   applyMove won_state 5 0 = (Some INVALID_MOVE, won_state)"
proof -
  have a: "isValidMove (fst drawn_board_state) 1 0 = Inr False"
    by code_simp
  have b: "gameover (snd won_state) \<noteq> None"
    by (simp add: won_state_def)
  show ?thesis
    using a b applyMove_rejects [of drawn_board_state 1 0] applyMove_rejects [of won_state 5 0]
    by simp
qed

text \<open>
  C3. After a legal move on a state of the data model, \<open>applyMove\<close> succeeds and the
  outcome stored is: won by the player who moved when the nine board winners contain a
  winning line (\<open>hasWinningLine\<close>: one of the eight triples of \<open>lines\<close> holds the same
  player's mark three times); otherwise a draw when every one of the nine boards is
  complete; otherwise none.
\<close>

theorem global_outcome:
  assumes "G_inv (fst s)" and "legal s boardId cellId"
    and "applyMove s boardId cellId = (e, s')"
  shows "e = None \<and>
         length (boards (fst s')) = 9 \<and>
         gameover (snd s') =
           (if hasWinningLine (map winner (boards (fst s')))
            then Some (Winner (currentPlayer (snd s)))
            else if list_all complete (boards (fst s')) then Some Draw
            else None)"
proof -
  from applyMove_legal [OF assms(1,2)] assms(3) have e: "e = None"
    by auto
  have r: "applyMove s boardId cellId = (None, s')"
    using assms(3) e by simp
  have inv': "G_inv (fst s')"
    using applyMove_preserves [OF assms(1) r] .
  have go: "gameover (snd s) = None"
    using assms(2) by (simp add: legal_def)
  show ?thesis
    using e inv' applyMove_gameover [OF go r] endGameIf_inv [OF inv', of "snd s"]
    by (simp add: G_inv_def)
qed

text \<open>
  C3 at the last move of \<open>won_game\<close>: boards 1, 4 and 7 are then won by \<open>PLAYER_0\<close>, and
  the outcome is a win of \<open>PLAYER_0\<close>.
\<close>

theorem global_outcome_witness:
  "G_inv (fst before_win_state) \<and> legal before_win_state 4 5 \<and>
   applyMove before_win_state 4 5 = (None, won_state) \<and>
   hasWinningLine (map winner (boards (fst won_state))) \<and>
   gameover (snd won_state) = Some (Winner PLAYER_0)"
proof -
  have a: "G_inv (fst before_win_state)"
    using reachable_G_inv [OF reachable_before_win_state] .
  have h: "hasWinningLine (map winner (boards (fst won_state)))"
    by code_simp
  have p: "currentPlayer (snd before_win_state) = PLAYER_0"
    by (simp add: before_win_state_def)
  show ?thesis
    using a legal_winning_move winning_move h p
      global_outcome [OF a legal_winning_move winning_move]
    by simp
qed

text \<open>
  C4. After a legal move at \<open>(boardId, cellId)\<close> on a state of the data model, the board
  played holds the mover's mark in the cell played. If its nine cells now contain a
  winning line, it is complete and its winner is the mover; otherwise, if none of its
  nine cells is \<open>null\<close>, it is complete and its winner is \<open>null\<close> as before; otherwise
  its \<open>complete\<close> and \<open>winner\<close> are as before.
\<close>

theorem local_completion:
  assumes "G_inv (fst s)" and "legal s boardId cellId"
    and "applyMove s boardId cellId = (e, s')"
  shows "e = None \<and>
         cells (boards (fst s') ! boardId) =
           (cells (boards (fst s) ! boardId))[cellId := Mark (currentPlayer (snd s))] \<and>
         length (cells (boards (fst s') ! boardId)) = 9 \<and>
         (if hasWinningLine (cells (boards (fst s') ! boardId))
          then complete (boards (fst s') ! boardId) \<and>
               winner (boards (fst s') ! boardId) = Mark (currentPlayer (snd s))
          else if list_all (\<lambda>c. c \<noteq> Null) (cells (boards (fst s') ! boardId))
          then complete (boards (fst s') ! boardId) \<and>
               winner (boards (fst s') ! boardId) = Null \<and>
               winner (boards (fst s) ! boardId) = Null
          else complete (boards (fst s') ! boardId) = complete (boards (fst s) ! boardId) \<and>
               winner (boards (fst s') ! boardId) = winner (boards (fst s) ! boardId))"
proof -
  let ?old = "boards (fst s) ! boardId"
  from applyMove_legal_result [OF assms]
  obtain b' where e: "e = None"
    and bs: "boards (fst s') = (boards (fst s))[boardId := b']"
    and cs: "cells b' = (cells ?old)[cellId := Mark (currentPlayer (snd s))]"
    and co: "complete b' = (isVictory (cells b') \<or> isComplete (cells b'))"
    and wi: "winner b' = (if isVictory (cells b') then Mark (currentPlayer (snd s)) else Null)"
    by blast
  have b: "boardId < 9" and v: "isValidMove (fst s) boardId cellId = Inr True"
    using assms(2) by (simp_all add: legal_def)
  have len: "length (boards (fst s)) = 9"
    using assms(1) by (simp add: G_inv_def)
  have new: "boards (fst s') ! boardId = b'"
    using b len by (simp add: bs)
  have bi: "board_inv ?old"
    using G_inv_board [OF assms(1) b] .
  have opn: "\<not> complete ?old"
    using isValidMove_TrueD(2) [OF v] .
  have w0: "winner ?old = Null"
    using board_inv_open [OF bi opn] .
  have clen: "length (cells b') = 9"
    using bi by (simp add: cs board_inv_def)
  have "set (cells b') \<subseteq> insert (Mark (currentPlayer (snd s))) (set (cells ?old))"
    unfolding cs by (rule set_update_subset_insert)
  then have nu: "Undefined \<notin> set (cells b')"
    using bi by (auto simp: board_inv_def)
  have vic: "isVictory (cells b') = hasWinningLine (cells b')"
    using isVictory_hasWinningLine [OF clen nu] .
  have full: "isComplete (cells b') = list_all (\<lambda>c. c \<noteq> Null) (cells b')"
    by (auto simp: isComplete_iff list_all_iff)
  have co': "complete b' =
      (hasWinningLine (cells b') \<or> list_all (\<lambda>c. c \<noteq> Null) (cells b'))"
    using co by (simp only: vic full)
  have wi': "winner b' =
      (if hasWinningLine (cells b') then Mark (currentPlayer (snd s)) else Null)"
    using wi by (simp only: vic)
  have "cells b' = (cells ?old)[cellId := Mark (currentPlayer (snd s))] \<and>
        length (cells b') = 9"
    using cs clen by simp
  moreover have "if hasWinningLine (cells b')
          then complete b' \<and> winner b' = Mark (currentPlayer (snd s))
          else if list_all (\<lambda>c. c \<noteq> Null) (cells b')
          then complete b' \<and> winner b' = Null \<and> winner ?old = Null
          else complete b' = complete ?old \<and> winner b' = winner ?old"
    using co' wi' opn w0 by simp
  ultimately show ?thesis
    unfolding new using e by blast
qed

text \<open>
  C4 at the last move of \<open>won_game\<close>, which completes the middle row of board 4.
\<close>

theorem local_completion_witness:
  "G_inv (fst before_win_state) \<and> legal before_win_state 4 5 \<and>
   applyMove before_win_state 4 5 = (None, won_state) \<and>
   hasWinningLine (cells (boards (fst won_state) ! 4)) \<and>
   complete (boards (fst won_state) ! 4) \<and>
   winner (boards (fst won_state) ! 4) = Mark PLAYER_0"
proof -
  have a: "G_inv (fst before_win_state)"
    using reachable_G_inv [OF reachable_before_win_state] .
  have h: "hasWinningLine (cells (boards (fst won_state) ! 4))"
    by code_simp
  have p: "currentPlayer (snd before_win_state) = PLAYER_0"
    by (simp add: before_win_state_def)
  show ?thesis
    using a legal_winning_move winning_move h p
      local_completion [OF a legal_winning_move winning_move]
    by simp
qed

text \<open>
  C5. After a legal move at \<open>(boardId, cellId)\<close> on a state of the data model,
  \<open>nextBoardId\<close> is \<open>cellId\<close> when board \<open>cellId\<close> of the post-move boards is not
  complete, and \<open>null\<close> otherwise.
\<close>

theorem next_board:
  assumes "G_inv (fst s)" and "legal s boardId cellId"
    and "applyMove s boardId cellId = (e, s')"
  shows "e = None \<and>
         nextBoardId (fst s') =
           (if complete (boards (fst s') ! cellId) then None else Some cellId)"
  using applyMove_legal_result [OF assms] by blast

text \<open>
  C5 at the last move of \<open>won_game\<close>: cell 5 was played and board 5 is open.
\<close>

theorem next_board_witness:
  "G_inv (fst before_win_state) \<and> legal before_win_state 4 5 \<and>
   applyMove before_win_state 4 5 = (None, won_state) \<and>
   \<not> complete (boards (fst won_state) ! 5) \<and>
   nextBoardId (fst won_state) = Some 5"
proof -
  have a: "G_inv (fst before_win_state)"
    using reachable_G_inv [OF reachable_before_win_state] .
  have c: "\<not> complete (boards (fst won_state) ! 5)"
    by (simp add: won_state_def)
  show ?thesis
    using a legal_winning_move winning_move c
      next_board [OF a legal_winning_move winning_move]
    by simp
qed

text \<open>
  C6. On every state reachable from the initial state by legal moves, the draw test of
  \<open>endGameIf\<close> (line 75), \<open>isComplete(cells) || allBoardsComplete(G.boards)\<close>, has the value
  of its second disjunct, which says that all nine boards are complete.
\<close>

theorem draw_test_redundant:
  assumes "reachable s"
  shows "(isComplete (boardsToCells (boards (fst s))) \<or> allBoardsComplete (boards (fst s))) =
           allBoardsComplete (boards (fst s)) \<and>
         allBoardsComplete (boards (fst s)) = list_all complete (boards (fst s)) \<and>
         length (boards (fst s)) = 9"
  using draw_test_inv [OF reachable_G_inv [OF assms]] reachable_G_inv [OF assms]
  by (simp add: allBoardsComplete_iff list_all_iff G_inv_def)

text \<open>
  C6 at \<open>drawn_board_state\<close>, where both disjuncts are false.
\<close>

theorem draw_test_redundant_witness:
  "reachable drawn_board_state \<and>
   \<not> isComplete (boardsToCells (boards (fst drawn_board_state))) \<and>
   \<not> allBoardsComplete (boards (fst drawn_board_state))"
proof -
  have "\<not> list_all complete (boards (fst drawn_board_state))"
    by (simp add: drawn_board_state_def)
  then show ?thesis
    using reachable_drawn_board_state draw_test_redundant [OF reachable_drawn_board_state]
    by blast
qed

text \<open>
  C7. On every state reachable from the initial state by legal moves, a board with a
  winner is complete. The converse fails on a reachable state: board 8 of
  \<open>drawn_board_state\<close> is complete and has no winner.
\<close>

theorem winner_implies_complete:
  "(reachable s \<longrightarrow>
      (\<forall>i<9. winner (boards (fst s) ! i) \<noteq> Null \<longrightarrow> complete (boards (fst s) ! i))) \<and>
   (reachable drawn_board_state \<and>
    complete (boards (fst drawn_board_state) ! 8) \<and>
    winner (boards (fst drawn_board_state) ! 8) = Null)"
proof -
  have "winner (boards (fst s) ! i) \<noteq> Null \<longrightarrow> complete (boards (fst s) ! i)"
    if "reachable s" and "i < 9" for i
    using G_inv_board [OF reachable_G_inv [OF that(1)] that(2)]
    by (simp add: board_inv_def)
  moreover have "complete (boards (fst drawn_board_state) ! 8) \<and>
    winner (boards (fst drawn_board_state) ! 8) = Null"
    by (simp add: drawn_board_state_def)
  ultimately show ?thesis
    using reachable_drawn_board_state by blast
qed

text \<open>
  C7 at board 4 of \<open>won_state\<close>.
\<close>

theorem winner_implies_complete_witness:
  "reachable won_state \<and> (4::nat) < 9 \<and>
   winner (boards (fst won_state) ! 4) \<noteq> Null \<and> complete (boards (fst won_state) ! 4)"
proof -
  have w: "winner (boards (fst won_state) ! 4) \<noteq> Null"
    by (simp add: won_state_def)
  show ?thesis
    using reachable_won_state w winner_implies_complete [of won_state]
    by simp
qed

text \<open>
  C8. After a legal move that leaves the game without an outcome, the current player is
  the other player.
\<close>

theorem turn_alternates:
  assumes "G_inv (fst s)" and "legal s boardId cellId"
    and "applyMove s boardId cellId = (e, s')" and "gameover (snd s') = None"
  shows "e = None \<and> currentPlayer (snd s') = other (currentPlayer (snd s)) \<and>
         currentPlayer (snd s') \<noteq> currentPlayer (snd s)"
proof -
  from applyMove_legal [OF assms(1,2)] assms(3) have e: "e = None"
    by auto
  have r: "applyMove s boardId cellId = (None, s')"
    using assms(3) e by simp
  have "currentPlayer (snd s') = other (currentPlayer (snd s))"
    using applyMove_ctx [OF r] assms(4) by (simp split: option.splits)
  moreover have "other p \<noteq> p" for p
    by (cases p) (simp_all add: other_def)
  ultimately show ?thesis
    using e by simp
qed

text \<open>
  C8 at the move to board 0, cell 0 of \<open>drawn_board_state\<close>: \<open>PLAYER_0\<close> moves and
  \<open>PLAYER_1\<close> is next.
\<close>

theorem turn_alternates_witness:
  "G_inv (fst drawn_board_state) \<and> legal drawn_board_state 0 0 \<and>
   gameover (snd (snd (applyMove drawn_board_state 0 0))) = None \<and>
   currentPlayer (snd drawn_board_state) = PLAYER_0 \<and>
   currentPlayer (snd (snd (applyMove drawn_board_state 0 0))) = PLAYER_1"
proof -
  have a: "G_inv (fst drawn_board_state)"
    using reachable_G_inv [OF reachable_drawn_board_state] .
  have g: "gameover (snd (snd (applyMove drawn_board_state 0 0))) = None"
    by code_simp
  have p: "currentPlayer (snd drawn_board_state) = PLAYER_0"
    by (simp add: drawn_board_state_def)
  show ?thesis
    using a first_move g p
      turn_alternates [OF a first_move prod.collapse [symmetric] g]
    by (simp add: other_def)
qed

text \<open>
  C9. On a state with nine boards, \<open>enumerate\<close> returns a list that holds exactly the
  pairs \<open>(boardId, cellId)\<close> with both indices in 0 to 8 for which \<open>isValidMove\<close> returns
  \<open>true\<close>, in strictly ascending order by board and then by cell. The list is a function
  of \<open>G\<close> alone, and neither \<open>enumerate\<close> nor \<open>isValidMove\<close> assigns to \<open>G\<close>, so a second
  call on the same \<open>G\<close> returns the same list.
\<close>

theorem enumerate_exact:
  assumes "length (boards g) = 9"
  shows "\<exists>ms. enumerate_moves g = Inr ms \<and>
           (\<forall>boardId cellId. (boardId, cellId) \<in> set ms \<longleftrightarrow>
              boardId < 9 \<and> cellId < 9 \<and> isValidMove g boardId cellId = Inr True) \<and>
           sorted_wrt move_less ms"
proof -
  let ?ms = "filter (valid_move g) (List.product [0..<9] [0..<9])"
  have "enumerate_moves g = Inr ?ms"
    using enumerate_boards_eq [OF assms, of 0 "[]"] by (simp add: enumerate_moves_def)
  moreover have "(boardId, cellId) \<in> set ?ms \<longleftrightarrow>
       boardId < 9 \<and> cellId < 9 \<and> isValidMove g boardId cellId = Inr True" for boardId cellId
    by (auto simp: valid_move_def)
  moreover have "sorted_wrt move_less ?ms"
    by (intro sorted_wrt_filter sorted_product) simp_all
  ultimately show ?thesis
    by blast
qed

text \<open>
  C9 at \<open>drawn_board_state\<close>, where board 0 is to be played and is empty.
\<close>

theorem enumerate_exact_witness:
  "length (boards (fst drawn_board_state)) = 9 \<and>
   enumerate_moves (fst drawn_board_state) =
     Inr [(0, 0), (0, 1), (0, 2), (0, 3), (0, 4), (0, 5), (0, 6), (0, 7), (0, 8)] \<and>
   isValidMove (fst drawn_board_state) 0 4 = Inr True \<and>
   isValidMove (fst drawn_board_state) 1 3 \<noteq> Inr True"
proof -
  let ?ms = "[(0, 0), (0, 1), (0, 2), (0, 3), (0, 4), (0, 5), (0, 6), (0, 7), (0::nat, 8::nat)]"
  have l: "length (boards (fst drawn_board_state)) = 9"
    by (simp add: drawn_board_state_def)
  have e: "enumerate_moves (fst drawn_board_state) = Inr ?ms"
    by code_simp
  from enumerate_exact [OF l] e
  have a: "\<forall>boardId cellId. (boardId, cellId) \<in> set ?ms \<longleftrightarrow>
          boardId < 9 \<and> cellId < 9 \<and>
          isValidMove (fst drawn_board_state) boardId cellId = Inr True"
    by (elim exE conjE) simp
  have "isValidMove (fst drawn_board_state) 0 4 = Inr True"
    using a [rule_format, of 0 4] by simp
  moreover have "isValidMove (fst drawn_board_state) 1 3 \<noteq> Inr True"
    using a [rule_format, of 1 3] by simp
  ultimately show ?thesis
    using l e by simp
qed

text \<open>
  C10. After a legal move at \<open>(boardId, cellId)\<close> on a state of the data model, every
  other board is the same in all fields, and every other cell of the board played holds
  what it held; the cell played was \<open>null\<close> and holds the mover's mark.
\<close>

theorem move_frame:
  assumes "G_inv (fst s)" and "legal s boardId cellId"
    and "applyMove s boardId cellId = (e, s')"
  shows "e = None \<and>
         length (boards (fst s')) = 9 \<and>
         (\<forall>i<9. i \<noteq> boardId \<longrightarrow> boards (fst s') ! i = boards (fst s) ! i) \<and>
         length (cells (boards (fst s') ! boardId)) = 9 \<and>
         (\<forall>j<9. j \<noteq> cellId \<longrightarrow>
            cells (boards (fst s') ! boardId) ! j = cells (boards (fst s) ! boardId) ! j) \<and>
         cells (boards (fst s) ! boardId) ! cellId = Null \<and>
         cells (boards (fst s') ! boardId) ! cellId = Mark (currentPlayer (snd s))"
proof -
  let ?old = "boards (fst s) ! boardId"
  from applyMove_legal_result [OF assms]
  obtain b' where e: "e = None"
    and bs: "boards (fst s') = (boards (fst s))[boardId := b']"
    and cs: "cells b' = (cells ?old)[cellId := Mark (currentPlayer (snd s))]"
    by blast
  have b: "boardId < 9" and k: "cellId < 9"
    using assms(2) by (simp_all add: legal_def)
  have len: "length (boards (fst s)) = 9"
    using assms(1) by (simp add: G_inv_def)
  have new: "boards (fst s') ! boardId = b'"
    using b len by (simp add: bs)
  have clen: "length (cells ?old) = 9"
    using G_inv_board [OF assms(1) b] by (simp add: board_inv_def)
  have emp: "cells ?old ! cellId = Null"
    using valid_cell_empty [OF assms(1) k] assms(2) by (simp add: legal_def)
  show ?thesis
    unfolding new
    using e len clen k emp by (simp add: bs cs)
qed

text \<open>
  C10 at the last move of \<open>won_game\<close>.
\<close>

theorem move_frame_witness:
  "G_inv (fst before_win_state) \<and> legal before_win_state 4 5 \<and>
   applyMove before_win_state 4 5 = (None, won_state) \<and>
   boards (fst won_state) ! 0 = boards (fst before_win_state) ! 0 \<and>
   cells (boards (fst won_state) ! 4) ! 7 = Mark PLAYER_1 \<and>
   cells (boards (fst before_win_state) ! 4) ! 5 = Null \<and>
   cells (boards (fst won_state) ! 4) ! 5 = Mark PLAYER_0"
proof -
  have a: "G_inv (fst before_win_state)"
    using reachable_G_inv [OF reachable_before_win_state] .
  have p: "currentPlayer (snd before_win_state) = PLAYER_0"
    and q: "cells (boards (fst before_win_state) ! 4) ! 7 = Mark PLAYER_1"
    by (simp_all add: before_win_state_def)
  show ?thesis
    using a legal_winning_move winning_move p q
      move_frame [OF a legal_winning_move winning_move]
    by simp
qed

end
